theory Spec2Isabelle
  imports Main "HOL-Library.Word"
begin

section \<open>The PaymentRequestFHE contract\<close>

text \<open>
  A shallow embedding of \<^verbatim>\<open>src/contracts/Payment_Request_Fhe.sol\<close> (Solidity 0.8.24).
  Storage is a record, one field per storage variable; a Solidity mapping is a total
  function whose value at a key never written is the zero value. Every external function
  is a HOL function from the call context (\<^verbatim>\<open>msg.sender\<close>, \<^verbatim>\<open>block.timestamp\<close>), its
  arguments and the storage to an outcome: the error of the \<^verbatim>\<open>revert\<close> that stopped it,
  if any, and the storage as the statements executed so far have left it. The rollback
  that the EVM performs on a revert is a separate definition (\<open>transact\<close>).
\<close>

subsection \<open>Data\<close>

type_synonym address = "160 word"
type_synonym uint256 = "256 word"
type_synonym bytes32 = "256 word"
type_synonym bytes = "8 word list"

text \<open>An \<^verbatim>\<open>euint32\<close> is an opaque ciphertext handle; \<^verbatim>\<open>toBytes32\<close> unwraps it.\<close>

type_synonym euint32 = bytes32

text \<open>
  The custom errors of the contract. \<open>Panic\<close> is the arithmetic-overflow panic of
  Solidity 0.8 checked arithmetic; \<open>SenderNotAllowed\<close> and \<open>InvalidKMSSignatures\<close> are
  the reverts of the library calls \<^verbatim>\<open>FHE.requestDecryption\<close> and
  \<^verbatim>\<open>FHE.checkSignatures\<close>.
\<close>

datatype error =
    NotOwner | NotProvider | Paused | CooldownActive | InvalidBatch | InvalidState
  | ReplayDetected | DecryptionFailed | AlreadyInitialized | NotInitialized
  | Panic | SenderNotAllowed | InvalidKMSSignatures

text \<open>
  The events. \<^verbatim>\<open>setPaused\<close> emits \<^verbatim>\<open>Paused()\<close> and \<^verbatim>\<open>Unpaused()\<close>; the first is named
  \<open>PausedEvent\<close> here, \<open>Paused\<close> being the error. \<open>DecryptionFulfilled\<close> is the event
  that \<^verbatim>\<open>FHE.checkSignatures\<close> logs, in the contract's own log, when it accepts a proof.
\<close>

datatype event =
    ProviderAdded address
  | ProviderRemoved address
  | CooldownSet uint256
  | BatchOpened uint256
  | BatchClosed uint256
  | PaymentRequestSubmitted uint256 address bytes32
  | DecryptionRequested uint256 uint256
  | DecryptionCompleted uint256 uint256 uint256
  | PausedEvent
  | Unpaused
  | DecryptionFulfilled uint256

record DecryptionContext =
  batchId :: uint256
  stateHash :: bytes32
  processed :: bool

record state =
  owner :: address
  providers :: "address \<Rightarrow> bool"
  paused :: bool
  cooldownSeconds :: uint256
  lastSubmissionTime :: "address \<Rightarrow> uint256"
  lastDecryptionRequestTime :: "address \<Rightarrow> uint256"
  currentBatchId :: uint256
  batchOpen :: bool
  encryptedNotes :: "uint256 \<Rightarrow> address \<Rightarrow> euint32"
  hasSubmitted :: "uint256 \<Rightarrow> address \<Rightarrow> bool"
  decryptionContexts :: "uint256 \<Rightarrow> DecryptionContext"
  counterRequest :: uint256
  events :: "event list"

text \<open>The call context of one transaction.\<close>

record env =
  msg_sender :: address
  block_timestamp :: uint256

text \<open>
  The storage holds, beside the contract's own variables, the request counter of the FHE
  library (\<open>counterRequest\<close>), which the library keeps in the storage of the contract
  that calls it.

  What the contract takes from outside its source are parameters of the model: its own
  address (\<^verbatim>\<open>address(this)\<close>); \<^verbatim>\<open>keccak256(abi.encode(cts, a))\<close> as a function of the
  handles and the address; the verdict of the access-control list on a decryption of the
  handles (\<open>allowForDecryption\<close>, False: \<^verbatim>\<open>FHE.requestDecryption\<close> reverts); and the
  verdict of the signature check on a request id, a cleartext and a proof
  (\<open>checkSignatures\<close>, False: \<^verbatim>\<open>FHE.checkSignatures\<close> reverts).
\<close>

record ext =
  this_address :: address
  keccak256 :: "bytes32 list \<Rightarrow> address \<Rightarrow> bytes32"
  allowForDecryption :: "bytes32 list \<Rightarrow> bool"
  checkSignatures :: "uint256 \<Rightarrow> bytes \<Rightarrow> bytes \<Rightarrow> bool"

type_synonym outcome = "error option \<times> state"

subsection \<open>Helpers\<close>

text \<open>Storage before the constructor runs: every slot zero.\<close>

definition zero_state :: state where
  "zero_state =
     \<lparr>owner = 0, providers = (\<lambda>_. False), paused = False, cooldownSeconds = 0,
      lastSubmissionTime = (\<lambda>_. 0), lastDecryptionRequestTime = (\<lambda>_. 0),
      currentBatchId = 0, batchOpen = False,
      encryptedNotes = (\<lambda>_ _. 0), hasSubmitted = (\<lambda>_ _. False),
      decryptionContexts = (\<lambda>_. \<lparr>batchId = 0, stateHash = 0, processed = False\<rparr>),
      counterRequest = 0,
      events = []\<rparr>"

definition emit :: "event \<Rightarrow> state \<Rightarrow> state" where
  "emit ev s = s\<lparr>events := events s @ [ev]\<rparr>"

text \<open>Checked addition of Solidity 0.8: None stands for the overflow panic.\<close>

definition checked_add :: "uint256 \<Rightarrow> uint256 \<Rightarrow> uint256 option" where
  "checked_add a b = (if unat a + unat b < 2 ^ 256 then Some (a + b) else None)"

text \<open>\<^verbatim>\<open>abi.decode(cleartexts, (uint256))\<close>: the bytes read as a big-endian number.\<close>

definition abi_decode_uint256 :: "bytes \<Rightarrow> uint256" where
  "abi_decode_uint256 bs = foldl (\<lambda>acc b. acc * 256 + ucast b) 0 bs"

definition hashCiphertexts :: "ext \<Rightarrow> bytes32 list \<Rightarrow> bytes32" where
  "hashCiphertexts X cts = keccak256 X cts (this_address X)"

definition isNoteInitialized :: "state \<Rightarrow> uint256 \<Rightarrow> address \<Rightarrow> bool" where
  "isNoteInitialized s b p = hasSubmitted s b p"

subsection \<open>The two calls into the FHE library\<close>

text \<open>
  Modelled from the spec: \<^verbatim>\<open>FHE.requestDecryption\<close>, a function of the imported FHE
  library, which is not among the source files. The spec has the dispatch return an
  opaque request id, assigned outside the contract and unique for the lifetime of the
  system. Here the call reverts with \<open>SenderNotAllowed\<close> when the access-control list does
  not allow the contract to have the handles decrypted; otherwise it returns the
  library's request counter as the id and increments the counter, with checked
  arithmetic, so that no id is issued twice. The call is taken as one step: when it
  reverts it has changed nothing.
\<close>

definition FHE_requestDecryption ::
  "ext \<Rightarrow> bytes32 list \<Rightarrow> state \<Rightarrow> error + (uint256 \<times> state)" where
  "FHE_requestDecryption X cts s =
     (if \<not> allowForDecryption X cts then Inl SenderNotAllowed
      else
        (case checked_add (counterRequest s) 1 of
           None \<Rightarrow> Inl Panic
         | Some n \<Rightarrow> Inr (counterRequest s, s\<lparr>counterRequest := n\<rparr>)))"

text \<open>
  Modelled from the spec: \<^verbatim>\<open>FHE.checkSignatures\<close>, of the same library. The spec has it
  verify that the proof authenticates the cleartext for this request id and fail
  otherwise. Here it reverts with \<open>InvalidKMSSignatures\<close> when the verdict is False, and
  logs \<open>DecryptionFulfilled\<close> for the request id when it is True.
\<close>

definition FHE_checkSignatures ::
  "ext \<Rightarrow> uint256 \<Rightarrow> bytes \<Rightarrow> bytes \<Rightarrow> state \<Rightarrow> error + state" where
  "FHE_checkSignatures X requestId cleartexts prf s =
     (if \<not> checkSignatures X requestId cleartexts prf then Inl InvalidKMSSignatures
      else Inr (emit (DecryptionFulfilled requestId) s))"

subsection \<open>The constructor and the external functions\<close>

definition constructor :: "env \<Rightarrow> state" where
  "constructor e =
     (let s1 = zero_state\<lparr>owner := msg_sender e\<rparr>;
          s2 = s1\<lparr>providers := (providers s1)(msg_sender e := True)\<rparr>;
          s3 = emit (ProviderAdded (msg_sender e)) s2;
          s4 = s3\<lparr>cooldownSeconds := 60\<rparr>;
          s5 = s4\<lparr>currentBatchId := 0\<rparr>
      in s5\<lparr>batchOpen := False\<rparr>)"

definition addProvider :: "env \<Rightarrow> address \<Rightarrow> state \<Rightarrow> outcome" where
  "addProvider e p s =
     (if msg_sender e \<noteq> owner s then (Some NotOwner, s)
      else (None, emit (ProviderAdded p) (s\<lparr>providers := (providers s)(p := True)\<rparr>)))"

definition removeProvider :: "env \<Rightarrow> address \<Rightarrow> state \<Rightarrow> outcome" where
  "removeProvider e p s =
     (if msg_sender e \<noteq> owner s then (Some NotOwner, s)
      else (None, emit (ProviderRemoved p) (s\<lparr>providers := (providers s)(p := False)\<rparr>)))"

definition setCooldown :: "env \<Rightarrow> uint256 \<Rightarrow> state \<Rightarrow> outcome" where
  "setCooldown e c s =
     (if msg_sender e \<noteq> owner s then (Some NotOwner, s)
      else (None, emit (CooldownSet c) (s\<lparr>cooldownSeconds := c\<rparr>)))"

definition setPaused :: "env \<Rightarrow> bool \<Rightarrow> state \<Rightarrow> outcome" where
  "setPaused e p s =
     (if msg_sender e \<noteq> owner s then (Some NotOwner, s)
      else (None, emit (if p then PausedEvent else Unpaused) (s\<lparr>paused := p\<rparr>)))"

definition openBatch :: "env \<Rightarrow> state \<Rightarrow> outcome" where
  "openBatch e s =
     (if msg_sender e \<noteq> owner s then (Some NotOwner, s)
      else if paused s then (Some Paused, s)
      else
        (case (if batchOpen s then checked_add (currentBatchId s) 1
               else Some (currentBatchId s)) of
           None \<Rightarrow> (Some Panic, s)
         | Some n \<Rightarrow>
             (let s1 = s\<lparr>currentBatchId := n\<rparr>;
                  s2 = s1\<lparr>batchOpen := True\<rparr>
              in (None, emit (BatchOpened (currentBatchId s2)) s2))))"

definition closeBatch :: "env \<Rightarrow> state \<Rightarrow> outcome" where
  "closeBatch e s =
     (if msg_sender e \<noteq> owner s then (Some NotOwner, s)
      else if paused s then (Some Paused, s)
      else if \<not> batchOpen s then (Some InvalidBatch, s)
      else (let s1 = s\<lparr>batchOpen := False\<rparr>
            in (None, emit (BatchClosed (currentBatchId s1)) s1)))"

definition submitPaymentRequest :: "env \<Rightarrow> uint256 \<Rightarrow> euint32 \<Rightarrow> state \<Rightarrow> outcome" where
  "submitPaymentRequest e b note s =
     (if \<not> providers s (msg_sender e) then (Some NotProvider, s)
      else if paused s then (Some Paused, s)
      else
        (case checked_add (lastSubmissionTime s (msg_sender e)) (cooldownSeconds s) of
           None \<Rightarrow> (Some Panic, s)
         | Some t \<Rightarrow>
             if block_timestamp e < t then (Some CooldownActive, s)
             else if b \<noteq> currentBatchId s then (Some InvalidBatch, s)
             else if \<not> batchOpen s then (Some InvalidBatch, s)
             else if hasSubmitted s b (msg_sender e) then (Some AlreadyInitialized, s)
             else
               (let s1 = s\<lparr>lastSubmissionTime :=
                            (lastSubmissionTime s)(msg_sender e := block_timestamp e)\<rparr>;
                    s2 = s1\<lparr>encryptedNotes :=
                            (encryptedNotes s1)(b := (encryptedNotes s1 b)(msg_sender e := note))\<rparr>;
                    s3 = s2\<lparr>hasSubmitted :=
                            (hasSubmitted s2)(b := (hasSubmitted s2 b)(msg_sender e := True))\<rparr>
                in (None, emit (PaymentRequestSubmitted b (msg_sender e) note) s3))))"

definition requestNoteDecryption ::
  "ext \<Rightarrow> env \<Rightarrow> uint256 \<Rightarrow> address \<Rightarrow> state \<Rightarrow> outcome" where
  "requestNoteDecryption X e b p s =
     (if paused s then (Some Paused, s)
      else
        (case checked_add (lastDecryptionRequestTime s (msg_sender e)) (cooldownSeconds s) of
           None \<Rightarrow> (Some Panic, s)
         | Some t \<Rightarrow>
             if block_timestamp e < t then (Some CooldownActive, s)
             else if \<not> isNoteInitialized s b p then (Some NotInitialized, s)
             else
               (let note = encryptedNotes s b p;
                    cts = [note];
                    h = hashCiphertexts X cts
                in case FHE_requestDecryption X cts s of
                     Inl err \<Rightarrow> (Some err, s)
                   | Inr (requestId, s0) \<Rightarrow>
                       (let s1 = s0\<lparr>decryptionContexts :=
                                  (decryptionContexts s0)(requestId :=
                                     \<lparr>batchId = b, stateHash = h, processed = False\<rparr>)\<rparr>;
                            s2 = s1\<lparr>lastDecryptionRequestTime :=
                                  (lastDecryptionRequestTime s1)
                                    (msg_sender e := block_timestamp e)\<rparr>
                        in (None, emit (DecryptionRequested requestId b) s2)))))"

definition myCallback ::
  "ext \<Rightarrow> env \<Rightarrow> uint256 \<Rightarrow> bytes \<Rightarrow> bytes \<Rightarrow> state \<Rightarrow> outcome" where
  "myCallback X e requestId cleartexts prf s =
     (if processed (decryptionContexts s requestId) then (Some ReplayDetected, s)
      else if length cleartexts \<noteq> 32 then (Some DecryptionFailed, s)
      else
        (let cts = [encryptedNotes s (batchId (decryptionContexts s requestId)) (msg_sender e)];
             currentHash = hashCiphertexts X cts
         in if currentHash \<noteq> stateHash (decryptionContexts s requestId)
            then (Some InvalidState, s)
            else
              (case FHE_checkSignatures X requestId cleartexts prf s of
                 Inl err \<Rightarrow> (Some err, s)
               | Inr s0 \<Rightarrow>
                   (let note = abi_decode_uint256 cleartexts;
                        s1 = s0\<lparr>decryptionContexts :=
                                (decryptionContexts s0)(requestId :=
                                   (decryptionContexts s0 requestId)\<lparr>processed := True\<rparr>)\<rparr>
                    in (None,
                        emit (DecryptionCompleted requestId
                                (batchId (decryptionContexts s1 requestId)) note) s1)))))"

subsection \<open>Transactions\<close>

datatype call =
    AddProvider address
  | RemoveProvider address
  | SetCooldown uint256
  | SetPaused bool
  | OpenBatch
  | CloseBatch
  | SubmitPaymentRequest uint256 euint32
  | RequestNoteDecryption uint256 address
  | MyCallback uint256 bytes bytes

fun exec :: "ext \<Rightarrow> env \<Rightarrow> call \<Rightarrow> state \<Rightarrow> outcome" where
  "exec X e (AddProvider p) s = addProvider e p s"
| "exec X e (RemoveProvider p) s = removeProvider e p s"
| "exec X e (SetCooldown c) s = setCooldown e c s"
| "exec X e (SetPaused p) s = setPaused e p s"
| "exec X e OpenBatch s = openBatch e s"
| "exec X e CloseBatch s = closeBatch e s"
| "exec X e (SubmitPaymentRequest b n) s = submitPaymentRequest e b n s"
| "exec X e (RequestNoteDecryption b p) s = requestNoteDecryption X e b p s"
| "exec X e (MyCallback r c p) s = myCallback X e r c p s"

text \<open>
  A transaction is a call in its context. The EVM keeps the storage a call leaves when it
  returns and restores the storage of before when it reverts.
\<close>

type_synonym tx = "env \<times> call"

definition accepted :: "ext \<Rightarrow> tx \<Rightarrow> state \<Rightarrow> bool" where
  "accepted X t s = (fst (exec X (fst t) (snd t) s) = None)"

definition transact :: "ext \<Rightarrow> tx \<Rightarrow> state \<Rightarrow> state" where
  "transact X t s = (if accepted X t s then snd (exec X (fst t) (snd t) s) else s)"

fun run :: "ext \<Rightarrow> state \<Rightarrow> tx list \<Rightarrow> state" where
  "run X s [] = s"
| "run X s (t # ts) = run X (transact X t s) ts"

subsection \<open>Concrete inputs\<close>

text \<open>
  A stand-in for what lies outside the source, for evaluating the contract on concrete
  inputs: the contract lives at address 4096, the access-control list allows every
  decryption, every proof passes \<open>checkSignatures\<close>, and the hash is a simple function
  that tells the handles used below apart. In \<open>refusing_ext\<close> the access-control list
  allows no decryption.
\<close>

definition stub_ext :: ext where
  "stub_ext =
     \<lparr>this_address = 4096,
      keccak256 = (\<lambda>cts a. foldl (\<lambda>h c. 31 * h + c + 1) (ucast a) cts),
      allowForDecryption = (\<lambda>_. True),
      checkSignatures = (\<lambda>_ _ _. True)\<rparr>"

definition refusing_ext :: ext where
  "refusing_ext = stub_ext\<lparr>allowForDecryption := (\<lambda>_. False)\<rparr>"

definition at :: "address \<Rightarrow> uint256 \<Rightarrow> env" where
  "at a t = \<lparr>msg_sender = a, block_timestamp = t\<rparr>"

text \<open>
  Address 1 deploys the contract and owns it. In \<open>scenario_requested\<close> the owner opens
  batch 0 and registers provider 2, provider 2 submits the handle 192, and address 3
  requests its decryption; it is the first request and gets request id 0.
\<close>

definition scenario_requested :: state where
  "scenario_requested =
     run stub_ext (constructor (at 1 0))
       [(at 1 10, OpenBatch), (at 1 20, AddProvider 2),
        (at 2 100, SubmitPaymentRequest 0 192),
        (at 3 200, RequestNoteDecryption 0 2)]"

text \<open>
  Two providers, 2 and 4, each with a submission and a decryption request for it, with
  the request ids 0 and 1.
\<close>

definition scenario_two_requests :: state where
  "scenario_two_requests =
     run stub_ext (constructor (at 1 0))
       [(at 1 10, OpenBatch), (at 1 20, AddProvider 2), (at 1 30, AddProvider 4),
        (at 2 100, SubmitPaymentRequest 0 192), (at 4 100, SubmitPaymentRequest 0 193),
        (at 3 200, RequestNoteDecryption 0 2), (at 3 300, RequestNoteDecryption 0 4)]"

text \<open>The owner, a provider itself, opens batch 0 and submits the handle 192 at time 100.\<close>

definition scenario_submitted :: state where
  "scenario_submitted =
     run stub_ext (constructor (at 1 0))
       [(at 1 10, OpenBatch), (at 1 100, SubmitPaymentRequest 0 192)]"

text \<open>The owner pauses the system right after deployment.\<close>

definition scenario_paused :: state where
  "scenario_paused = run stub_ext (constructor (at 1 0)) [(at 1 5, SetPaused True)]"

text \<open>After a submission at time 100 the owner sets the cooldown to \<open>2 ^ 256 - 1\<close>.\<close>

definition scenario_long_cooldown :: state where
  "scenario_long_cooldown =
     run stub_ext (constructor (at 1 0))
       [(at 1 10, OpenBatch), (at 1 100, SubmitPaymentRequest 0 192),
        (at 1 110, SetCooldown (- 1))]"

text \<open>Two submissions by the owner, to batch 0 and, after a second \<open>openBatch\<close>, to batch 1.\<close>

definition trace_two_submissions :: "tx list" where
  "trace_two_submissions =
     [(at 1 10, OpenBatch), (at 1 100, SubmitPaymentRequest 0 192),
      (at 1 110, OpenBatch), (at 1 200, SubmitPaymentRequest 1 193)]"

section \<open>Auxiliary facts\<close>

lemmas op_defs = addProvider_def removeProvider_def setCooldown_def setPaused_def
  openBatch_def closeBatch_def submitPaymentRequest_def requestNoteDecryption_def
  myCallback_def FHE_requestDecryption_def FHE_checkSignatures_def

lemmas eval_defs = op_defs constructor_def zero_state_def emit_def checked_add_def
  hashCiphertexts_def isNoteInitialized_def transact_def accepted_def stub_ext_def
  refusing_ext_def at_def Let_def

subsection \<open>Checked arithmetic\<close>

lemma checked_add_Some: "checked_add a b = Some t \<Longrightarrow> unat t = unat a + unat b"
  by (auto simp: checked_add_def unat_add_lem [THEN iffD1] split: if_splits)

lemma checked_add_eq_Some:
  "unat a + unat b < 2 ^ 256 \<Longrightarrow> checked_add a b = Some (a + b)"
  by (simp add: checked_add_def)

lemma checked_add_overflow:
  "2 ^ 256 \<le> unat a + unat b \<Longrightarrow> checked_add a b = None"
  by (simp add: checked_add_def)

lemma checked_add_one: "checked_add a 1 = (if a = - 1 then None else Some (a + 1))"
proof (cases "a = - 1")
  case True
  then show ?thesis by (simp add: checked_add_def unsigned_minus_1_eq_mask mask_eq_exp_minus_1)
next
  case False
  have "unat a < 2 ^ 256" using unsigned_less [of a, where ?'a = nat] by simp
  moreover have "unat a \<noteq> 2 ^ 256 - 1"
  proof
    assume "unat a = 2 ^ 256 - 1"
    then have "unat a = unat (- 1 :: uint256)" by (simp add: unsigned_minus_1_eq_mask mask_eq_exp_minus_1)
    then have "a = - 1" by (simp only: word_unat_eq_iff)
    with False show False by simp
  qed
  ultimately have "unat a + unat (1 :: uint256) < 2 ^ 256" by simp
  with False show ?thesis by (simp add: checked_add_def)
qed

lemma unat_succ: "a \<noteq> (- 1 :: uint256) \<Longrightarrow> unat (a + 1) = unat a + 1"
  using checked_add_one [of a] checked_add_Some [of a 1 "a + 1"] by simp

text \<open>
  The cooldown comparison \<^verbatim>\<open>block.timestamp < last + cooldownSeconds\<close>, read on natural
  numbers.
\<close>

lemma cooldown_elapsed:
  assumes "unat l + unat c \<le> unat (t :: uint256)"
  shows "checked_add l c = Some (l + c)" and "\<not> t < l + c"
proof -
  have "unat t < 2 ^ 256"
    using unsigned_less [of t, where ?'a = nat] by simp
  with assms have "unat l + unat c < 2 ^ 256" by linarith
  then show ca: "checked_add l c = Some (l + c)" by (rule checked_add_eq_Some)
  from checked_add_Some [OF ca] assms show "\<not> t < l + c"
    by (simp add: word_less_nat_alt)
qed

lemma cooldown_pending:
  assumes "unat (t :: uint256) < unat l + unat c" and "unat l + unat c < 2 ^ 256"
  shows "checked_add l c = Some (l + c)" and "t < l + c"
proof -
  from assms(2) show ca: "checked_add l c = Some (l + c)" by (rule checked_add_eq_Some)
  from checked_add_Some [OF ca] assms(1) show "t < l + c"
    by (simp add: word_less_nat_alt)
qed

subsection \<open>Runs\<close>

lemma run_append: "run X s (xs @ ys) = run X (run X s xs) ys"
  by (induction xs arbitrary: s) simp_all

lemma run_take_Suc:
  "i < length ts \<Longrightarrow> run X s (take (Suc i) ts) = transact X (ts ! i) (run X s (take i ts))"
  by (simp add: take_Suc_conv_app_nth run_append)

lemma run_take_split:
  assumes "i \<le> j"
  shows "run X s (take j ts) = run X (run X s (take i ts)) (drop i (take j ts))"
proof -
  have "take j ts = take i (take j ts) @ drop i (take j ts)"
    by (rule append_take_drop_id [symmetric])
  also have "take i (take j ts) = take i ts" using assms by (simp add: min_def)
  finally have "take j ts = take i ts @ drop i (take j ts)" .
  then have "run X s (take j ts) = run X s (take i ts @ drop i (take j ts))" by simp
  then show ?thesis by (simp add: run_append)
qed

subsection \<open>Every revert precedes every write\<close>

lemma exec_revert_unchanged:
  "fst (exec X e c s) \<noteq> None \<Longrightarrow> snd (exec X e c s) = s"
  by (cases c)
     (auto simp: addProvider_def removeProvider_def setCooldown_def setPaused_def
        openBatch_def closeBatch_def submitPaymentRequest_def requestNoteDecryption_def FHE_requestDecryption_def
        myCallback_def FHE_checkSignatures_def Let_def split: if_splits option.splits sum.splits prod.splits)

subsection \<open>The batch id\<close>

lemma openBatch_open:
  assumes "msg_sender e = owner s" "\<not> paused s" "batchOpen s" "currentBatchId s \<noteq> - 1"
  shows "fst (openBatch e s) = None \<and>
         currentBatchId (snd (openBatch e s)) = currentBatchId s + 1 \<and>
         unat (currentBatchId s) < unat (currentBatchId (snd (openBatch e s))) \<and>
         batchOpen (snd (openBatch e s))"
  using assms unat_succ [of "currentBatchId s"]
  by (simp add: openBatch_def checked_add_one emit_def Let_def)

lemma openBatch_closed:
  assumes "msg_sender e = owner s" "\<not> paused s" "\<not> batchOpen s"
  shows "fst (openBatch e s) = None \<and>
         currentBatchId (snd (openBatch e s)) = currentBatchId s \<and>
         batchOpen (snd (openBatch e s))"
  using assms by (simp add: openBatch_def emit_def Let_def)

lemma openBatch_success_open:
  "fst (openBatch e s) = None \<Longrightarrow> batchOpen (snd (openBatch e s))"
  by (auto simp: openBatch_def emit_def Let_def split: if_splits option.splits sum.splits prod.splits)

lemma openBatch_success_advance:
  "batchOpen s \<Longrightarrow> fst (openBatch e s) = None \<Longrightarrow>
   currentBatchId s \<noteq> - 1 \<and> currentBatchId (snd (openBatch e s)) = currentBatchId s + 1"
  by (auto simp: openBatch_def checked_add_one emit_def Let_def split: if_splits)

lemma exec_currentBatchId:
  "currentBatchId (snd (exec X e c s)) = currentBatchId s \<or>
   (c = OpenBatch \<and> batchOpen s \<and> currentBatchId s \<noteq> - 1 \<and>
    currentBatchId (snd (exec X e c s)) = currentBatchId s + 1)"
  by (cases c)
     (auto simp: op_defs checked_add_one emit_def Let_def split: if_splits option.splits sum.splits prod.splits)

lemma exec_currentBatchId_le:
  "unat (currentBatchId s) \<le> unat (currentBatchId (snd (exec X e c s)))"
  using exec_currentBatchId [of X e c s] unat_succ [of "currentBatchId s"] by auto

lemma transact_currentBatchId_le:
  "unat (currentBatchId s) \<le> unat (currentBatchId (transact X t s))"
  by (simp add: transact_def exec_currentBatchId_le)

lemma run_currentBatchId_le:
  "unat (currentBatchId s) \<le> unat (currentBatchId (run X s ts))"
proof (induction ts arbitrary: s)
  case Nil
  show ?case by simp
next
  case (Cons t ts)
  have "unat (currentBatchId s) \<le> unat (currentBatchId (transact X t s))"
    by (rule transact_currentBatchId_le)
  also have "\<dots> \<le> unat (currentBatchId (run X (transact X t s) ts))"
    by (rule Cons.IH)
  finally show ?case by simp
qed

subsection \<open>Submissions are written once\<close>

lemma exec_hasSubmitted:
  "hasSubmitted s b p \<Longrightarrow> hasSubmitted (snd (exec X e c s)) b p"
  by (cases c)
     (auto simp: op_defs emit_def Let_def split: if_splits option.splits sum.splits prod.splits)

lemma exec_encryptedNotes:
  "hasSubmitted s b p \<Longrightarrow> encryptedNotes (snd (exec X e c s)) b p = encryptedNotes s b p"
  by (cases c)
     (auto simp: op_defs emit_def Let_def split: if_splits option.splits sum.splits prod.splits)

lemma transact_submission:
  "hasSubmitted s b p \<Longrightarrow>
   hasSubmitted (transact X t s) b p \<and> encryptedNotes (transact X t s) b p = encryptedNotes s b p"
  by (simp add: transact_def exec_hasSubmitted exec_encryptedNotes)

lemma run_submission:
  "hasSubmitted s b p \<Longrightarrow>
   hasSubmitted (run X s ts) b p \<and> encryptedNotes (run X s ts) b p = encryptedNotes s b p"
proof (induction ts arbitrary: s)
  case Nil
  then show ?case by simp
next
  case (Cons t ts)
  from Cons.prems have step: "hasSubmitted (transact X t s) b p"
    and same: "encryptedNotes (transact X t s) b p = encryptedNotes s b p"
    by (simp_all add: transact_submission)
  from Cons.IH [OF step] same show ?case by simp
qed

lemma submit_accepted_effect:
  assumes "fst (submitPaymentRequest e b n s) = None"
  shows "hasSubmitted (snd (submitPaymentRequest e b n s)) b (msg_sender e)"
    and "encryptedNotes (snd (submitPaymentRequest e b n s)) b (msg_sender e) = n"
    and "lastSubmissionTime (snd (submitPaymentRequest e b n s)) (msg_sender e) = block_timestamp e"
  using assms
  by (auto simp: submitPaymentRequest_def emit_def Let_def split: if_splits option.splits sum.splits prod.splits)

lemma submit_again_rejected:
  assumes "hasSubmitted s b (msg_sender e)"
  shows "fst (submitPaymentRequest e b n s) \<noteq> None"
    and "snd (submitPaymentRequest e b n s) = s"
  using assms
  by (auto simp: submitPaymentRequest_def emit_def Let_def split: if_splits option.splits sum.splits prod.splits)

lemma submit_AlreadyInitialized:
  assumes "hasSubmitted s b (msg_sender e)" "providers s (msg_sender e)" "\<not> paused s"
    "unat (lastSubmissionTime s (msg_sender e)) + unat (cooldownSeconds s) \<le> unat (block_timestamp e)"
    "b = currentBatchId s" "batchOpen s"
  shows "submitPaymentRequest e b n s = (Some AlreadyInitialized, s)"
  using assms cooldown_elapsed [OF assms(4)]
  by (simp add: submitPaymentRequest_def)

subsection \<open>The two cooldown clocks\<close>

lemma submit_accepted_time:
  "fst (submitPaymentRequest e b n s) = None \<Longrightarrow>
   unat (lastSubmissionTime s (msg_sender e)) + unat (cooldownSeconds s) \<le> unat (block_timestamp e)"
  by (auto simp: submitPaymentRequest_def word_less_nat_alt Let_def
        dest!: checked_add_Some split: if_splits option.splits sum.splits prod.splits)

lemma request_accepted_time:
  "fst (requestNoteDecryption X e b p s) = None \<Longrightarrow>
   unat (lastDecryptionRequestTime s (msg_sender e)) + unat (cooldownSeconds s)
     \<le> unat (block_timestamp e)"
  by (auto simp: requestNoteDecryption_def FHE_requestDecryption_def word_less_nat_alt Let_def
        dest!: checked_add_Some split: if_splits option.splits sum.splits prod.splits)

lemma request_accepted_effect:
  "fst (requestNoteDecryption X e b p s) = None \<Longrightarrow>
   lastDecryptionRequestTime (snd (requestNoteDecryption X e b p s)) (msg_sender e) =
     block_timestamp e"
  by (auto simp: requestNoteDecryption_def FHE_requestDecryption_def emit_def Let_def split: if_splits option.splits sum.splits prod.splits)

lemma exec_lastSubmissionTime:
  "lastSubmissionTime (snd (exec X e c s)) a = lastSubmissionTime s a \<or>
   (\<exists>b n. c = SubmitPaymentRequest b n \<and> a = msg_sender e \<and>
      fst (submitPaymentRequest e b n s) = None \<and>
      lastSubmissionTime (snd (exec X e c s)) a = block_timestamp e)"
  by (cases c)
     (auto simp: op_defs emit_def Let_def split: if_splits option.splits sum.splits prod.splits)

lemma exec_lastDecryptionRequestTime:
  "lastDecryptionRequestTime (snd (exec X e c s)) a = lastDecryptionRequestTime s a \<or>
   (\<exists>b p. c = RequestNoteDecryption b p \<and> a = msg_sender e \<and>
      fst (requestNoteDecryption X e b p s) = None \<and>
      lastDecryptionRequestTime (snd (exec X e c s)) a = block_timestamp e)"
  by (cases c)
     (auto simp: op_defs emit_def Let_def split: if_splits option.splits sum.splits prod.splits)

lemma transact_lastSubmissionTime_le:
  "unat (lastSubmissionTime s a) \<le> unat (lastSubmissionTime (transact X t s) a)"
proof (cases "accepted X t s")
  case False
  then show ?thesis by (simp add: transact_def)
next
  case True
  then have tr: "transact X t s = snd (exec X (fst t) (snd t) s)"
    by (simp add: transact_def)
  from exec_lastSubmissionTime [of X "fst t" "snd t" s a]
  show ?thesis
  proof
    assume "lastSubmissionTime (snd (exec X (fst t) (snd t) s)) a = lastSubmissionTime s a"
    with tr show ?thesis by simp
  next
    assume "\<exists>b n. snd t = SubmitPaymentRequest b n \<and> a = msg_sender (fst t) \<and>
      fst (submitPaymentRequest (fst t) b n s) = None \<and>
      lastSubmissionTime (snd (exec X (fst t) (snd t) s)) a = block_timestamp (fst t)"
    then obtain b n where acc: "fst (submitPaymentRequest (fst t) b n s) = None"
      and a: "a = msg_sender (fst t)"
      and stamp: "lastSubmissionTime (snd (exec X (fst t) (snd t) s)) a = block_timestamp (fst t)"
      by blast
    from submit_accepted_time [OF acc] a stamp tr show ?thesis by simp
  qed
qed

lemma transact_lastDecryptionRequestTime_le:
  "unat (lastDecryptionRequestTime s a) \<le> unat (lastDecryptionRequestTime (transact X t s) a)"
proof (cases "accepted X t s")
  case False
  then show ?thesis by (simp add: transact_def)
next
  case True
  then have tr: "transact X t s = snd (exec X (fst t) (snd t) s)"
    by (simp add: transact_def)
  from exec_lastDecryptionRequestTime [of X "fst t" "snd t" s a]
  show ?thesis
  proof
    assume "lastDecryptionRequestTime (snd (exec X (fst t) (snd t) s)) a =
      lastDecryptionRequestTime s a"
    with tr show ?thesis by simp
  next
    assume "\<exists>b p. snd t = RequestNoteDecryption b p \<and> a = msg_sender (fst t) \<and>
      fst (requestNoteDecryption X (fst t) b p s) = None \<and>
      lastDecryptionRequestTime (snd (exec X (fst t) (snd t) s)) a = block_timestamp (fst t)"
    then obtain b p where acc: "fst (requestNoteDecryption X (fst t) b p s) = None"
      and a: "a = msg_sender (fst t)"
      and stamp: "lastDecryptionRequestTime (snd (exec X (fst t) (snd t) s)) a =
        block_timestamp (fst t)"
      by blast
    from request_accepted_time [OF acc] a stamp tr show ?thesis by simp
  qed
qed

lemma run_lastSubmissionTime_le:
  "unat (lastSubmissionTime s a) \<le> unat (lastSubmissionTime (run X s ts) a)"
proof (induction ts arbitrary: s)
  case Nil
  show ?case by simp
next
  case (Cons t ts)
  have "unat (lastSubmissionTime s a) \<le> unat (lastSubmissionTime (transact X t s) a)"
    by (rule transact_lastSubmissionTime_le)
  also have "\<dots> \<le> unat (lastSubmissionTime (run X (transact X t s) ts) a)"
    by (rule Cons.IH)
  finally show ?case by simp
qed

lemma run_lastDecryptionRequestTime_le:
  "unat (lastDecryptionRequestTime s a) \<le> unat (lastDecryptionRequestTime (run X s ts) a)"
proof (induction ts arbitrary: s)
  case Nil
  show ?case by simp
next
  case (Cons t ts)
  have "unat (lastDecryptionRequestTime s a)
      \<le> unat (lastDecryptionRequestTime (transact X t s) a)"
    by (rule transact_lastDecryptionRequestTime_le)
  also have "\<dots> \<le> unat (lastDecryptionRequestTime (run X (transact X t s) ts) a)"
    by (rule Cons.IH)
  finally show ?case by simp
qed

lemma submit_separation:
  assumes ij: "i < j" "j < length ts"
    and ti: "ts ! i = (ei, SubmitPaymentRequest bi ni)"
    and tj: "ts ! j = (ej, SubmitPaymentRequest bj nj)"
    and same: "msg_sender ei = msg_sender ej"
    and ai: "accepted X (ts ! i) (run X s (take i ts))"
    and aj: "accepted X (ts ! j) (run X s (take j ts))"
  shows "unat (block_timestamp ei) + unat (cooldownSeconds (run X s (take j ts)))
           \<le> unat (block_timestamp ej)"
proof -
  let ?si = "run X s (take i ts)"
  let ?si1 = "run X s (take (Suc i) ts)"
  let ?sj = "run X s (take j ts)"
  from ai ti have acc_i: "fst (submitPaymentRequest ei bi ni ?si) = None"
    by (simp add: accepted_def)
  from ij have "?si1 = transact X (ts ! i) ?si" by (simp add: run_take_Suc)
  with ai ti have "?si1 = snd (submitPaymentRequest ei bi ni ?si)"
    by (simp add: transact_def)
  with submit_accepted_effect(3) [OF acc_i]
  have stamp: "lastSubmissionTime ?si1 (msg_sender ei) = block_timestamp ei" by simp
  from ij have "?sj = run X ?si1 (drop (Suc i) (take j ts))"
    using run_take_split [of "Suc i" j X s ts] by simp
  then have "unat (lastSubmissionTime ?si1 (msg_sender ei))
      \<le> unat (lastSubmissionTime ?sj (msg_sender ei))"
    using run_lastSubmissionTime_le [of ?si1 "msg_sender ei" X "drop (Suc i) (take j ts)"]
    by simp
  with stamp have le: "unat (block_timestamp ei) \<le> unat (lastSubmissionTime ?sj (msg_sender ej))"
    using same by simp
  from aj tj have "fst (submitPaymentRequest ej bj nj ?sj) = None"
    by (simp add: accepted_def)
  from submit_accepted_time [OF this] le show ?thesis by linarith
qed

lemma request_separation:
  assumes ij: "i < j" "j < length ts"
    and ti: "ts ! i = (ei, RequestNoteDecryption bi qi)"
    and tj: "ts ! j = (ej, RequestNoteDecryption bj qj)"
    and same: "msg_sender ei = msg_sender ej"
    and ai: "accepted X (ts ! i) (run X s (take i ts))"
    and aj: "accepted X (ts ! j) (run X s (take j ts))"
  shows "unat (block_timestamp ei) + unat (cooldownSeconds (run X s (take j ts)))
           \<le> unat (block_timestamp ej)"
proof -
  let ?si = "run X s (take i ts)"
  let ?si1 = "run X s (take (Suc i) ts)"
  let ?sj = "run X s (take j ts)"
  from ai ti have acc_i: "fst (requestNoteDecryption X ei bi qi ?si) = None"
    by (simp add: accepted_def)
  from ij have "?si1 = transact X (ts ! i) ?si" by (simp add: run_take_Suc)
  with ai ti have "?si1 = snd (requestNoteDecryption X ei bi qi ?si)"
    by (simp add: transact_def)
  with request_accepted_effect [OF acc_i]
  have stamp: "lastDecryptionRequestTime ?si1 (msg_sender ei) = block_timestamp ei" by simp
  from ij have "?sj = run X ?si1 (drop (Suc i) (take j ts))"
    using run_take_split [of "Suc i" j X s ts] by simp
  then have "unat (lastDecryptionRequestTime ?si1 (msg_sender ei))
      \<le> unat (lastDecryptionRequestTime ?sj (msg_sender ei))"
    using run_lastDecryptionRequestTime_le [of ?si1 "msg_sender ei" X "drop (Suc i) (take j ts)"]
    by simp
  with stamp have le:
    "unat (block_timestamp ei) \<le> unat (lastDecryptionRequestTime ?sj (msg_sender ej))"
    using same by simp
  from aj tj have "fst (requestNoteDecryption X ej bj qj ?sj) = None"
    by (simp add: accepted_def)
  from request_accepted_time [OF this] le show ?thesis by linarith
qed

lemma submit_CooldownActive:
  assumes "providers s (msg_sender e)" "\<not> paused s"
    and "unat (block_timestamp e)
           < unat (lastSubmissionTime s (msg_sender e)) + unat (cooldownSeconds s)"
    and "unat (lastSubmissionTime s (msg_sender e)) + unat (cooldownSeconds s) < 2 ^ 256"
  shows "submitPaymentRequest e b n s = (Some CooldownActive, s)"
  using assms(1,2) cooldown_pending [OF assms(3,4)]
  by (simp add: submitPaymentRequest_def)

lemma request_CooldownActive:
  assumes "\<not> paused s"
    and "unat (block_timestamp e)
           < unat (lastDecryptionRequestTime s (msg_sender e)) + unat (cooldownSeconds s)"
    and "unat (lastDecryptionRequestTime s (msg_sender e)) + unat (cooldownSeconds s) < 2 ^ 256"
  shows "requestNoteDecryption X e b p s = (Some CooldownActive, s)"
  using assms(1) cooldown_pending [OF assms(2,3)]
  by (simp add: requestNoteDecryption_def FHE_requestDecryption_def)

lemma submit_Panic:
  assumes "providers s (msg_sender e)" "\<not> paused s"
    and "2 ^ 256 \<le> unat (lastSubmissionTime s (msg_sender e)) + unat (cooldownSeconds s)"
  shows "submitPaymentRequest e b n s = (Some Panic, s)"
  using assms(1,2) checked_add_overflow [OF assms(3)]
  by (simp add: submitPaymentRequest_def)

lemma request_Panic:
  assumes "\<not> paused s"
    and "2 ^ 256 \<le> unat (lastDecryptionRequestTime s (msg_sender e)) + unat (cooldownSeconds s)"
  shows "requestNoteDecryption X e b p s = (Some Panic, s)"
  using assms(1) checked_add_overflow [OF assms(2)]
  by (simp add: requestNoteDecryption_def FHE_requestDecryption_def)

lemma submit_guards:
  "\<not> providers s (msg_sender e) \<Longrightarrow> submitPaymentRequest e b n s = (Some NotProvider, s)"
  "providers s (msg_sender e) \<Longrightarrow> paused s \<Longrightarrow>
     submitPaymentRequest e b n s = (Some Paused, s)"
  by (simp_all add: submitPaymentRequest_def)

lemma request_guard:
  "paused s \<Longrightarrow> requestNoteDecryption X e b p s = (Some Paused, s)"
  by (simp add: requestNoteDecryption_def FHE_requestDecryption_def)

subsection \<open>The state check of the callback\<close>

text \<open>
  \<open>myCallback\<close> fails with \<open>InvalidState\<close> exactly when the request is not yet processed,
  the cleartext has 32 bytes, and the hash of the handle stored for the recorded batch
  and the \<^emph>\<open>caller\<close> of the callback differs from the recorded hash.
\<close>

lemma myCallback_InvalidState_iff:
  "fst (myCallback X e r c p s) = Some InvalidState \<longleftrightarrow>
     \<not> processed (decryptionContexts s r) \<and> length c = 32 \<and>
     hashCiphertexts X [encryptedNotes s (batchId (decryptionContexts s r)) (msg_sender e)] \<noteq>
       stateHash (decryptionContexts s r)"
  by (simp add: myCallback_def FHE_checkSignatures_def Let_def)

subsection \<open>Request ids are issued once\<close>

text \<open>
  The request counter never decreases, and only \<open>requestNoteDecryption\<close> writes a
  record, under the counter's value: a record below the counter that is processed stays
  processed.
\<close>

lemma exec_counterRequest:
  "counterRequest (snd (exec X e c s)) = counterRequest s \<or>
   (counterRequest s \<noteq> - 1 \<and> counterRequest (snd (exec X e c s)) = counterRequest s + 1)"
  by (cases c)
     (auto simp: op_defs checked_add_one emit_def Let_def
        split: if_splits option.splits sum.splits prod.splits)

lemma exec_counterRequest_le:
  "unat (counterRequest s) \<le> unat (counterRequest (snd (exec X e c s)))"
  using exec_counterRequest [of X e c s] unat_succ [of "counterRequest s"] by auto

lemma exec_processed:
  assumes "unat r < unat (counterRequest s)" and "processed (decryptionContexts s r)"
  shows "processed (decryptionContexts (snd (exec X e c s)) r)"
proof -
  from assms(1) have "r \<noteq> counterRequest s" by auto
  with assms(2) show ?thesis
    by (cases c)
       (auto simp: op_defs emit_def Let_def
          split: if_splits option.splits sum.splits prod.splits)
qed

lemma transact_processed:
  assumes "unat r < unat (counterRequest s)" and "processed (decryptionContexts s r)"
  shows "unat r < unat (counterRequest (transact X t s)) \<and>
         processed (decryptionContexts (transact X t s) r)"
  using assms exec_processed [OF assms, of X "fst t" "snd t"]
    exec_counterRequest_le [of s X "fst t" "snd t"]
  by (auto simp: transact_def)

lemma run_processed:
  "unat r < unat (counterRequest s) \<Longrightarrow> processed (decryptionContexts s r) \<Longrightarrow>
   processed (decryptionContexts (run X s ts) r)"
proof (induction ts arbitrary: s)
  case Nil
  then show ?case by simp
next
  case (Cons t ts)
  from transact_processed [OF Cons.prems, of X t]
  have "unat r < unat (counterRequest (transact X t s))"
    and "processed (decryptionContexts (transact X t s) r)"
    by simp_all
  from Cons.IH [OF this] show ?case by simp
qed

lemma myCallback_accepted_effect:
  assumes "fst (myCallback X e r c p s) = None"
  shows "processed (decryptionContexts (snd (myCallback X e r c p s)) r)"
    and "counterRequest (snd (myCallback X e r c p s)) = counterRequest s"
  using assms
  by (auto simp: myCallback_def FHE_checkSignatures_def emit_def Let_def
        split: if_splits sum.splits)

lemma myCallback_replayed:
  "processed (decryptionContexts s r) \<Longrightarrow> myCallback X e r c p s = (Some ReplayDetected, s)"
  by (simp add: myCallback_def)

subsection \<open>The batch id within reach of a run\<close>

lemma exec_currentBatchId_step:
  "unat (currentBatchId (snd (exec X e c s))) \<le> unat (currentBatchId s) + 1"
  using exec_currentBatchId [of X e c s] unat_succ [of "currentBatchId s"] by auto

lemma run_currentBatchId_bound:
  "unat (currentBatchId (run X s ts)) \<le> unat (currentBatchId s) + length ts"
proof (induction ts arbitrary: s)
  case Nil
  show ?case by simp
next
  case (Cons t ts)
  have "unat (currentBatchId (transact X t s)) \<le> unat (currentBatchId s) + 1"
    using exec_currentBatchId_step [of X "fst t" "snd t" s] by (simp add: transact_def)
  with Cons.IH [of "transact X t s"] show ?case by simp
qed

lemma reachable_currentBatchId:
  assumes "s = run X (constructor d) ts" and "length ts < 2 ^ 256 - 1"
  shows "currentBatchId s \<noteq> - 1"
proof
  assume "currentBatchId s = - 1"
  then have "unat (currentBatchId s) = 2 ^ 256 - 1"
    by (simp add: unsigned_minus_1_eq_mask mask_eq_exp_minus_1)
  moreover have "unat (currentBatchId s) \<le> length ts"
    using run_currentBatchId_bound [of X "constructor d" ts] assms(1)
    by (simp add: constructor_def zero_state_def emit_def Let_def)
  ultimately show False using assms(2) by simp
qed

subsection \<open>The error of a repeated submission\<close>

lemma submit_again_result:
  assumes "hasSubmitted s b (msg_sender e)"
  shows "submitPaymentRequest e b n s =
    (Some
      (if \<not> providers s (msg_sender e) then NotProvider
       else if paused s then Paused
       else if 2 ^ 256 \<le> unat (lastSubmissionTime s (msg_sender e)) + unat (cooldownSeconds s)
       then Panic
       else if unat (block_timestamp e)
                 < unat (lastSubmissionTime s (msg_sender e)) + unat (cooldownSeconds s)
       then CooldownActive
       else if b \<noteq> currentBatchId s then InvalidBatch
       else if \<not> batchOpen s then InvalidBatch
       else AlreadyInitialized), s)"
proof (cases "2 ^ 256 \<le> unat (lastSubmissionTime s (msg_sender e)) + unat (cooldownSeconds s)")
  case True
  from checked_add_overflow [OF True] True show ?thesis
    by (simp add: submitPaymentRequest_def)
next
  case False
  then have fit: "unat (lastSubmissionTime s (msg_sender e)) + unat (cooldownSeconds s) < 2 ^ 256"
    by simp
  show ?thesis
  proof (cases "unat (block_timestamp e)
                 < unat (lastSubmissionTime s (msg_sender e)) + unat (cooldownSeconds s)")
    case True
    from cooldown_pending [OF True fit] True False show ?thesis
      by (simp add: submitPaymentRequest_def)
  next
    case late: False
    then have "unat (lastSubmissionTime s (msg_sender e)) + unat (cooldownSeconds s)
        \<le> unat (block_timestamp e)" by simp
    from cooldown_elapsed [OF this] late False assms show ?thesis
      by (auto simp: submitPaymentRequest_def)
  qed
qed

subsection \<open>Dispatching a request\<close>

lemma request_dispatch:
  assumes "\<not> paused s"
    and "unat (lastDecryptionRequestTime s (msg_sender e)) + unat (cooldownSeconds s)
           \<le> unat (block_timestamp e)"
    and "hasSubmitted s b p"
  shows "FHE_requestDecryption X [encryptedNotes s b p] s = Inl err \<Longrightarrow>
           requestNoteDecryption X e b p s = (Some err, s)"
    and "FHE_requestDecryption X [encryptedNotes s b p] s = Inr (r, s0) \<Longrightarrow>
           fst (requestNoteDecryption X e b p s) = None \<and>
           decryptionContexts (snd (requestNoteDecryption X e b p s)) r =
             \<lparr>batchId = b,
              stateHash = keccak256 X [encryptedNotes s b p] (this_address X),
              processed = False\<rparr>"
  using assms(1,3) cooldown_elapsed [OF assms(2)]
  by (simp_all add: requestNoteDecryption_def isNoteInitialized_def hashCiphertexts_def
        emit_def Let_def)

lemma request_NotInitialized:
  assumes "\<not> paused s"
    and "unat (lastDecryptionRequestTime s (msg_sender e)) + unat (cooldownSeconds s)
           \<le> unat (block_timestamp e)"
    and "\<not> hasSubmitted s b p"
  shows "requestNoteDecryption X e b p s = (Some NotInitialized, s)"
  using assms(1,3) cooldown_elapsed [OF assms(2)]
  by (simp add: requestNoteDecryption_def isNoteInitialized_def)

lemma FHE_requestDecryption_result:
  "FHE_requestDecryption X cts s =
     (if \<not> allowForDecryption X cts then Inl SenderNotAllowed
      else if counterRequest s = - 1 then Inl Panic
      else Inr (counterRequest s, s\<lparr>counterRequest := counterRequest s + 1\<rparr>))"
  by (simp add: FHE_requestDecryption_def checked_add_one)

section \<open>The claims\<close>

subsection \<open>C1: the replay guard of the callback\<close>

text \<open>
  C1. The replay guard is the first statement of \<open>myCallback\<close>: when the stored record
  of the request id has \<open>processed = true\<close>, the call fails with \<open>ReplayDetected\<close> whatever
  the caller, the cleartext and the proof are, and the storage is as before. The guard
  reads nothing but that flag: a call for a record whose flag is false never fails with
  \<open>ReplayDetected\<close>, and this includes a request id that no request has stored, whose
  record is all zero; such a call fails with \<open>DecryptionFailed\<close> when the cleartext is
  not 32 bytes long, and otherwise with \<open>InvalidState\<close> when the recomputed hash differs
  from the recorded one. A call right after a call that succeeded, for the same request
  id, fails with \<open>ReplayDetected\<close>. And when the request id is one that the library has
  issued (it is below the request counter), then after a call that succeeds and after
  any further transactions, every call for the same request id fails with
  \<open>ReplayDetected\<close> and changes nothing.
\<close>

theorem myCallback_replay_guard:
  "(processed (decryptionContexts s r) \<longrightarrow>
      myCallback X e r c p s = (Some ReplayDetected, s)) \<and>
   (\<not> processed (decryptionContexts s r) \<longrightarrow>
      fst (myCallback X e r c p s) \<noteq> Some ReplayDetected) \<and>
   (\<not> processed (decryptionContexts s r) \<and> length c \<noteq> 32 \<longrightarrow>
      myCallback X e r c p s = (Some DecryptionFailed, s)) \<and>
   (\<not> processed (decryptionContexts s r) \<and> length c = 32 \<and>
    hashCiphertexts X [encryptedNotes s (batchId (decryptionContexts s r)) (msg_sender e)] \<noteq>
      stateHash (decryptionContexts s r) \<longrightarrow>
      myCallback X e r c p s = (Some InvalidState, s)) \<and>
   (fst (myCallback X e r c p s) = None \<longrightarrow>
      myCallback X e' r c' p' (snd (myCallback X e r c p s)) =
        (Some ReplayDetected, snd (myCallback X e r c p s))) \<and>
   (unat r < unat (counterRequest s) \<and> fst (myCallback X e r c p s) = None \<longrightarrow>
      myCallback X e' r c' p' (run X (snd (myCallback X e r c p s)) ts) =
        (Some ReplayDetected, run X (snd (myCallback X e r c p s)) ts))"
proof -
  let ?s1 = "snd (myCallback X e r c p s)"
  have guard: "processed (decryptionContexts s r) \<longrightarrow>
      myCallback X e r c p s = (Some ReplayDetected, s)"
    by (simp add: myCallback_def)
  have other: "\<not> processed (decryptionContexts s r) \<longrightarrow>
      fst (myCallback X e r c p s) \<noteq> Some ReplayDetected"
    by (simp add: myCallback_def FHE_checkSignatures_def Let_def)
  have len: "\<not> processed (decryptionContexts s r) \<and> length c \<noteq> 32 \<longrightarrow>
      myCallback X e r c p s = (Some DecryptionFailed, s)"
    by (simp add: myCallback_def)
  have hash: "\<not> processed (decryptionContexts s r) \<and> length c = 32 \<and>
    hashCiphertexts X [encryptedNotes s (batchId (decryptionContexts s r)) (msg_sender e)] \<noteq>
      stateHash (decryptionContexts s r) \<longrightarrow>
      myCallback X e r c p s = (Some InvalidState, s)"
    by (simp add: myCallback_def Let_def)
  have again: "fst (myCallback X e r c p s) = None \<longrightarrow>
      myCallback X e' r c' p' ?s1 = (Some ReplayDetected, ?s1)"
  proof
    assume "fst (myCallback X e r c p s) = None"
    from myCallback_accepted_effect(1) [OF this]
    show "myCallback X e' r c' p' ?s1 = (Some ReplayDetected, ?s1)"
      by (rule myCallback_replayed)
  qed
  have later: "unat r < unat (counterRequest s) \<and> fst (myCallback X e r c p s) = None \<longrightarrow>
      myCallback X e' r c' p' (run X ?s1 ts) = (Some ReplayDetected, run X ?s1 ts)"
  proof
    assume h: "unat r < unat (counterRequest s) \<and> fst (myCallback X e r c p s) = None"
    then have acc: "fst (myCallback X e r c p s) = None" by simp
    from myCallback_accepted_effect [OF acc] h
    have "unat r < unat (counterRequest ?s1)" and "processed (decryptionContexts ?s1 r)"
      by simp_all
    then have "processed (decryptionContexts (run X ?s1 ts) r)"
      by (rule run_processed)
    then show "myCallback X e' r c' p' (run X ?s1 ts) = (Some ReplayDetected, run X ?s1 ts)"
      by (rule myCallback_replayed)
  qed
  from guard other len hash again later show ?thesis by (intro conjI)
qed

theorem myCallback_replay_guard_witness:
  "myCallback stub_ext (at 2 600) 0 (replicate 32 0) []
     (run stub_ext (snd (myCallback stub_ext (at 2 400) 0 (replicate 32 0) [] scenario_requested))
        [(at 3 500, RequestNoteDecryption 0 2)]) =
   (Some ReplayDetected,
    run stub_ext (snd (myCallback stub_ext (at 2 400) 0 (replicate 32 0) [] scenario_requested))
        [(at 3 500, RequestNoteDecryption 0 2)])"
proof -
  have "unat (0 :: uint256) < unat (counterRequest scenario_requested) \<and>
      fst (myCallback stub_ext (at 2 400) 0 (replicate 32 0) [] scenario_requested) = None"
    unfolding scenario_requested_def by (simp add: eval_defs)
  with myCallback_replay_guard
    [where s = scenario_requested and r = 0 and X = stub_ext and e = "at 2 400"
       and c = "replicate 32 0" and p = "[]" and e' = "at 2 600" and c' = "replicate 32 0"
       and p' = "[]" and ts = "[(at 3 500, RequestNoteDecryption 0 2)]"]
  show ?thesis by blast
qed

text \<open>
  Against C1 as stated: in the storage the constructor leaves, no request has been
  issued or stored, and a callback for request id 7 is not rejected as a replay; it
  fails at the length check with \<open>DecryptionFailed\<close>, and with a cleartext of 32 bytes at
  the state check with \<open>InvalidState\<close>.
\<close>

theorem myCallback_unknown_request_counterexample:
  "counterRequest (constructor (at 1 0)) = 0 \<and>
   decryptionContexts (constructor (at 1 0)) 7 = \<lparr>batchId = 0, stateHash = 0, processed = False\<rparr> \<and>
   fst (myCallback stub_ext (at 9 0) 7 [] [] (constructor (at 1 0))) = Some DecryptionFailed \<and>
   fst (myCallback stub_ext (at 9 0) 7 (replicate 32 0) [] (constructor (at 1 0))) = Some InvalidState"
  by (simp add: eval_defs)

subsection \<open>C2: the state hash recomputed by the callback\<close>

text \<open>
  C2. The callback run on the claim's own scenario. Provider 2 has submitted the handle
  192 to batch 0 and request 0 asks for its decryption; the handle stored for
  (batch 0, provider 2) is unchanged and its hash is the recorded one. The oracle,
  address 9, delivers the result: \<open>myCallback\<close> rebuilds the handle list from the slot of
  (batch 0, address 9), the caller's, not from the slot of the provider the request
  named, and fails with \<open>InvalidState\<close>.
\<close>

theorem myCallback_rebuilds_from_caller_slot:
  "encryptedNotes scenario_requested 0 2 = 192 \<and>
   decryptionContexts scenario_requested 0 =
     \<lparr>batchId = 0, stateHash = hashCiphertexts stub_ext [192], processed = False\<rparr> \<and>
   hashCiphertexts stub_ext [encryptedNotes scenario_requested 0 2] =
     stateHash (decryptionContexts scenario_requested 0) \<and>
   myCallback stub_ext (at 9 300) 0 (replicate 32 0) [] scenario_requested =
     (Some InvalidState, scenario_requested)"
  unfolding scenario_requested_def by (simp add: eval_defs)

subsection \<open>C3: who may call the callback\<close>

text \<open>
  C3. \<open>myCallback\<close> does not authenticate its caller: whatever address one takes for
  the oracle, there is a state that a run of transactions reaches from deployment in
  which a call by another address is accepted. A call is accepted only if the request is
  not yet processed, the cleartext has 32 bytes and \<open>checkSignatures\<close> accepts the proof
  for the request id and the cleartext; a call that is rejected leaves the storage, and
  so every request, as it was.
\<close>

theorem myCallback_no_caller_check:
  "(fst (myCallback X e r c p s) = None \<longrightarrow>
      \<not> processed (decryptionContexts s r) \<and> length c = 32 \<and> checkSignatures X r c p) \<and>
   (fst (myCallback X e r c p s) \<noteq> None \<longrightarrow> snd (myCallback X e r c p s) = s) \<and>
   (\<forall>orc. \<exists>Y d ts e' r' c' p'.
      msg_sender e' \<noteq> orc \<and>
      fst (myCallback Y e' r' c' p' (run Y (constructor d) ts)) = None)"
proof -
  have only_if: "fst (myCallback X e r c p s) = None \<longrightarrow>
      \<not> processed (decryptionContexts s r) \<and> length c = 32 \<and> checkSignatures X r c p"
    by (simp add: myCallback_def FHE_checkSignatures_def Let_def)
  have frame: "fst (myCallback X e r c p s) \<noteq> None \<longrightarrow> snd (myCallback X e r c p s) = s"
    by (simp add: myCallback_def FHE_checkSignatures_def Let_def)
  have anyone: "\<forall>orc. \<exists>Y d ts e' r' c' p'.
      msg_sender e' \<noteq> orc \<and>
      fst (myCallback Y e' r' c' p' (run Y (constructor d) ts)) = None"
  proof
    fix orc :: address
    let ?a = "orc + 1"
    let ?ts = "[(at ?a 10, OpenBatch), (at ?a 100, SubmitPaymentRequest 0 192),
                (at ?a 200, RequestNoteDecryption 0 ?a)]"
    have other: "msg_sender (at ?a 300) \<noteq> orc"
      by (simp add: at_def)
    have ok: "fst (myCallback stub_ext (at ?a 300) 0 (replicate 32 0) []
                (run stub_ext (constructor (at ?a 0)) ?ts)) = None"
      by (simp add: eval_defs)
    from other ok show "\<exists>Y d ts e' r' c' p'.
      msg_sender e' \<noteq> orc \<and>
      fst (myCallback Y e' r' c' p' (run Y (constructor d) ts)) = None"
      by blast
  qed
  from only_if frame anyone show ?thesis by (intro conjI)
qed

theorem myCallback_no_caller_check_witness:
  "checkSignatures stub_ext 1 (replicate 32 0) [] \<and>
   \<not> processed (decryptionContexts scenario_two_requests 1) \<and>
   snd (myCallback stub_ext (at 9 400) 1 (replicate 32 0) [] scenario_two_requests) =
     scenario_two_requests"
proof -
  have acc: "fst (myCallback stub_ext (at 4 400) 1 (replicate 32 0) [] scenario_two_requests) = None"
    unfolding scenario_two_requests_def by (simp add: eval_defs)
  have rej: "fst (myCallback stub_ext (at 9 400) 1 (replicate 32 0) [] scenario_two_requests) \<noteq> None"
    unfolding scenario_two_requests_def by (simp add: eval_defs)
  from myCallback_no_caller_check
         [of stub_ext "at 4 400" 1 "replicate 32 0" "[]" scenario_two_requests] acc
  have one: "checkSignatures stub_ext 1 (replicate 32 0) [] \<and>
      \<not> processed (decryptionContexts scenario_two_requests 1)"
    by blast
  from myCallback_no_caller_check
         [of stub_ext "at 9 400" 1 "replicate 32 0" "[]" scenario_two_requests] rej
  have two: "snd (myCallback stub_ext (at 9 400) 1 (replicate 32 0) [] scenario_two_requests) =
     scenario_two_requests"
    by blast
  from one two show ?thesis by (intro conjI) simp_all
qed

text \<open>
  Against C3 as stated: two different callers, the providers 2 and 4, each finalize a
  request, so a caller who is not the oracle is accepted, whichever address the oracle
  has.
\<close>

theorem myCallback_any_caller_counterexample:
  "(2 :: address) \<noteq> 4 \<and>
   fst (myCallback stub_ext (at 2 400) 0 (replicate 32 0) [] scenario_two_requests) = None \<and>
   processed (decryptionContexts
     (snd (myCallback stub_ext (at 2 400) 0 (replicate 32 0) [] scenario_two_requests)) 0) \<and>
   fst (myCallback stub_ext (at 4 400) 1 (replicate 32 0) [] scenario_two_requests) = None \<and>
   processed (decryptionContexts
     (snd (myCallback stub_ext (at 4 400) 1 (replicate 32 0) [] scenario_two_requests)) 1)"
  unfolding scenario_two_requests_def by (simp add: eval_defs)

subsection \<open>C4: the batch id advance rule\<close>

text \<open>
  C4. In every state that the contract reaches from its deployment by fewer than
  \<open>2 ^ 256 - 1\<close> transactions, when the caller is the owner and the system is not
  paused: if the batch is open, \<open>openBatch\<close> succeeds, the batch id becomes the id plus
  one, strictly larger, and the batch stays open; if the batch is closed, \<open>openBatch\<close>
  succeeds, keeps the id and opens the batch. Two consecutive successful calls give two
  different ids.
\<close>

theorem openBatch_advance_rule:
  assumes "s = run X (constructor d) ts" and "length ts < 2 ^ 256 - 1"
    and "msg_sender e = owner s" and "\<not> paused s"
  shows "(batchOpen s \<longrightarrow>
            fst (openBatch e s) = None \<and>
            currentBatchId (snd (openBatch e s)) = currentBatchId s + 1 \<and>
            unat (currentBatchId s) < unat (currentBatchId (snd (openBatch e s))) \<and>
            batchOpen (snd (openBatch e s))) \<and>
         (\<not> batchOpen s \<longrightarrow>
            fst (openBatch e s) = None \<and>
            currentBatchId (snd (openBatch e s)) = currentBatchId s \<and>
            batchOpen (snd (openBatch e s))) \<and>
         (fst (openBatch e s) = None \<and> fst (openBatch e' (snd (openBatch e s))) = None \<longrightarrow>
            currentBatchId (snd (openBatch e' (snd (openBatch e s)))) \<noteq>
              currentBatchId (snd (openBatch e s)))"
proof (intro conjI impI)
  assume a: "fst (openBatch e s) = None \<and> fst (openBatch e' (snd (openBatch e s))) = None"
  let ?s1 = "snd (openBatch e s)"
  from a have "batchOpen ?s1" by (simp add: openBatch_success_open)
  with a have "currentBatchId (snd (openBatch e' ?s1)) = currentBatchId ?s1 + 1"
    using openBatch_success_advance [of ?s1 e'] by simp
  then show "currentBatchId (snd (openBatch e' ?s1)) \<noteq> currentBatchId ?s1"
    by simp
next
  assume "batchOpen s"
  moreover have "currentBatchId s \<noteq> - 1"
    by (rule reachable_currentBatchId [OF assms(1,2)])
  ultimately have "fst (openBatch e s) = None \<and>
         currentBatchId (snd (openBatch e s)) = currentBatchId s + 1 \<and>
         unat (currentBatchId s) < unat (currentBatchId (snd (openBatch e s))) \<and>
         batchOpen (snd (openBatch e s))"
    by (rule openBatch_open [OF assms(3,4)])
  then show "fst (openBatch e s) = None"
    and "currentBatchId (snd (openBatch e s)) = currentBatchId s + 1"
    and "unat (currentBatchId s) < unat (currentBatchId (snd (openBatch e s)))"
    and "batchOpen (snd (openBatch e s))"
    by blast+
next
  assume "\<not> batchOpen s"
  from openBatch_closed [OF assms(3,4) this]
  show "fst (openBatch e s) = None"
    and "currentBatchId (snd (openBatch e s)) = currentBatchId s"
    and "batchOpen (snd (openBatch e s))"
    by blast+
qed

theorem openBatch_advance_rule_witness:
  "fst (openBatch (at 1 10) (run stub_ext (constructor (at 1 0)) [])) = None \<and>
   currentBatchId (snd (openBatch (at 1 10) (run stub_ext (constructor (at 1 0)) []))) = 0 \<and>
   fst (openBatch (at 1 20) (run stub_ext (constructor (at 1 0)) [(at 1 10, OpenBatch)])) = None \<and>
   currentBatchId
     (snd (openBatch (at 1 20) (run stub_ext (constructor (at 1 0)) [(at 1 10, OpenBatch)]))) = 1"
proof -
  let ?s0 = "run stub_ext (constructor (at 1 0)) []"
  let ?s1 = "run stub_ext (constructor (at 1 0)) [(at 1 10, OpenBatch)]"
  have o0: "msg_sender (at 1 10) = owner ?s0" "\<not> paused ?s0" "\<not> batchOpen ?s0"
    "currentBatchId ?s0 = 0"
    by (simp_all add: eval_defs)
  have o1: "msg_sender (at 1 20) = owner ?s1" "\<not> paused ?s1" "batchOpen ?s1"
    "currentBatchId ?s1 = 0"
    by (simp_all add: eval_defs)
  have l0: "length ([] :: tx list) < 2 ^ 256 - 1" by simp
  have l1: "length [(at 1 10, OpenBatch)] < 2 ^ 256 - 1" by simp
  from openBatch_advance_rule [OF refl l0 o0(1) o0(2)] o0(3) o0(4)
  have a: "fst (openBatch (at 1 10) ?s0) = None \<and> currentBatchId (snd (openBatch (at 1 10) ?s0)) = 0"
    by simp
  from openBatch_advance_rule [OF refl l1 o1(1) o1(2)] o1(3) o1(4)
  have b: "fst (openBatch (at 1 20) ?s1) = None \<and> currentBatchId (snd (openBatch (at 1 20) ?s1)) = 1"
    by simp
  from a b show ?thesis by (intro conjI) simp_all
qed

subsection \<open>C5: one submission per provider and batch\<close>

text \<open>
  C5. Once \<open>submitPaymentRequest\<close> by provider P for batch B with handle \<open>n\<close> has been
  accepted, then after any further transactions the storage still records the submission
  and the handle \<open>n\<close> for (B, P), and every later submission by P for B fails and leaves
  the storage, and with it the handle, unchanged. Its error is that of the first check
  that fails, in the order of the code: \<open>NotProvider\<close> when P is no longer a provider;
  else \<open>Paused\<close> when the system is paused; else the arithmetic panic when the last
  submission time plus the cooldown overflows; else \<open>CooldownActive\<close> when the cooldown
  has not elapsed; else \<open>InvalidBatch\<close> when B is not the current batch or the batch is
  closed; else \<open>AlreadyInitialized\<close>.
\<close>

theorem one_submission_per_provider_per_batch:
  assumes "fst (submitPaymentRequest e b n s) = None"
    and "s' = run X (snd (submitPaymentRequest e b n s)) ts"
    and "msg_sender e' = msg_sender e"
  shows "hasSubmitted s' b (msg_sender e) \<and>
         encryptedNotes s' b (msg_sender e) = n \<and>
         submitPaymentRequest e' b n' s' =
           (Some
             (if \<not> providers s' (msg_sender e') then NotProvider
              else if paused s' then Paused
              else if 2 ^ 256 \<le> unat (lastSubmissionTime s' (msg_sender e')) +
                                  unat (cooldownSeconds s')
              then Panic
              else if unat (block_timestamp e')
                        < unat (lastSubmissionTime s' (msg_sender e')) +
                          unat (cooldownSeconds s')
              then CooldownActive
              else if b \<noteq> currentBatchId s' then InvalidBatch
              else if \<not> batchOpen s' then InvalidBatch
              else AlreadyInitialized), s') \<and>
         encryptedNotes (transact X (e', SubmitPaymentRequest b n') s') b (msg_sender e) = n"
proof -
  let ?s1 = "snd (submitPaymentRequest e b n s)"
  have h1: "hasSubmitted ?s1 b (msg_sender e)" and n1: "encryptedNotes ?s1 b (msg_sender e) = n"
    using submit_accepted_effect [OF assms(1)] by simp_all
  from run_submission [OF h1, of X ts] n1 assms(2)
  have h: "hasSubmitted s' b (msg_sender e)" and v: "encryptedNotes s' b (msg_sender e) = n"
    by simp_all
  from h assms(3) have h': "hasSubmitted s' b (msg_sender e')" by simp
  note res = submit_again_result [OF h', of n']
  have tr: "encryptedNotes (transact X (e', SubmitPaymentRequest b n') s') b (msg_sender e) = n"
    using transact_submission [OF h, of X "(e', SubmitPaymentRequest b n')"] v by simp
  from h v res tr show ?thesis by (intro conjI)
qed

theorem one_submission_per_provider_per_batch_witness:
  "encryptedNotes
     (run stub_ext
        (snd (submitPaymentRequest (at 1 100) 0 192 (snd (openBatch (at 1 10) (constructor (at 1 0))))))
        [(at 1 150, AddProvider 2)]) 0 1 = 192 \<and>
   submitPaymentRequest (at 1 500) 0 193
     (run stub_ext
        (snd (submitPaymentRequest (at 1 100) 0 192 (snd (openBatch (at 1 10) (constructor (at 1 0))))))
        [(at 1 150, AddProvider 2)]) =
   (Some AlreadyInitialized,
    run stub_ext
        (snd (submitPaymentRequest (at 1 100) 0 192 (snd (openBatch (at 1 10) (constructor (at 1 0))))))
        [(at 1 150, AddProvider 2)])"
proof -
  let ?s = "snd (openBatch (at 1 10) (constructor (at 1 0)))"
  let ?s' = "run stub_ext (snd (submitPaymentRequest (at 1 100) 0 192 ?s)) [(at 1 150, AddProvider 2)]"
  have acc: "fst (submitPaymentRequest (at 1 100) 0 192 ?s) = None"
    by (simp add: eval_defs)
  have snd: "msg_sender (at 1 500) = msg_sender (at 1 100)"
    by (simp add: at_def)
  have guards: "providers ?s' (msg_sender (at 1 500)) \<and> \<not> paused ?s' \<and>
      \<not> 2 ^ 256 \<le> unat (lastSubmissionTime ?s' (msg_sender (at 1 500))) + unat (cooldownSeconds ?s') \<and>
      \<not> unat (block_timestamp (at 1 500))
         < unat (lastSubmissionTime ?s' (msg_sender (at 1 500))) + unat (cooldownSeconds ?s') \<and>
      0 = currentBatchId ?s' \<and> batchOpen ?s'"
    by (simp add: eval_defs)
  have who: "msg_sender (at 1 100) = 1" by (simp add: at_def)
  from one_submission_per_provider_per_batch [OF acc refl snd, of stub_ext "[(at 1 150, AddProvider 2)]" 193]
  have "encryptedNotes ?s' 0 (msg_sender (at 1 100)) = 192"
    and "submitPaymentRequest (at 1 500) 0 193 ?s' =
           (Some
             (if \<not> providers ?s' (msg_sender (at 1 500)) then NotProvider
              else if paused ?s' then Paused
              else if 2 ^ 256 \<le> unat (lastSubmissionTime ?s' (msg_sender (at 1 500))) +
                                  unat (cooldownSeconds ?s')
              then Panic
              else if unat (block_timestamp (at 1 500))
                        < unat (lastSubmissionTime ?s' (msg_sender (at 1 500))) +
                          unat (cooldownSeconds ?s')
              then CooldownActive
              else if 0 \<noteq> currentBatchId ?s' then InvalidBatch
              else if \<not> batchOpen ?s' then InvalidBatch
              else AlreadyInitialized), ?s')"
    by blast+
  with guards who show ?thesis by simp
qed

text \<open>
  Against C5 as stated: a second submission 20 seconds after the first, with the cooldown
  at 60, fails with \<open>CooldownActive\<close>, not with \<open>AlreadyInitialized\<close>.
\<close>

theorem resubmit_within_cooldown_counterexample:
  "accepted stub_ext (at 1 100, SubmitPaymentRequest 0 192)
     (run stub_ext (constructor (at 1 0)) [(at 1 10, OpenBatch)]) \<and>
   submitPaymentRequest (at 1 120) 0 193 scenario_submitted =
     (Some CooldownActive, scenario_submitted)"
  unfolding scenario_submitted_def by (simp add: eval_defs)

subsection \<open>C6: the cooldown\<close>

text \<open>
  C6. In any run of transactions from any storage, two accepted submissions by the same
  sender, and likewise two accepted decryption requests by the same sender, lie at least
  \<open>cooldownSeconds\<close> apart, the cooldown being the one in force at the later of the two.
  An attempt before \<open>last + cooldownSeconds\<close> fails with \<open>CooldownActive\<close> and changes
  nothing when the checks that come first pass (the system is not paused and, for a
  submission, the sender is a provider) and the sum fits \<^verbatim>\<open>uint256\<close>; when the sum
  does not fit, the attempt fails with the arithmetic panic and changes nothing. When a
  check that comes first fails, the attempt fails with its error, \<open>NotProvider\<close> or
  \<open>Paused\<close>, and changes nothing.
\<close>

theorem cooldown_between_accepted_actions:
  "(i < j \<and> j < length ts \<and>
    ts ! i = (ei, SubmitPaymentRequest bi ni) \<and> ts ! j = (ej, SubmitPaymentRequest bj nj) \<and>
    msg_sender ei = msg_sender ej \<and>
    accepted X (ts ! i) (run X s (take i ts)) \<and> accepted X (ts ! j) (run X s (take j ts)) \<longrightarrow>
      unat (block_timestamp ei) + unat (cooldownSeconds (run X s (take j ts)))
        \<le> unat (block_timestamp ej)) \<and>
   (i < j \<and> j < length ts \<and>
    ts ! i = (ei, RequestNoteDecryption bi qi) \<and>
    ts ! j = (ej, RequestNoteDecryption bj qj) \<and>
    msg_sender ei = msg_sender ej \<and>
    accepted X (ts ! i) (run X s (take i ts)) \<and> accepted X (ts ! j) (run X s (take j ts)) \<longrightarrow>
      unat (block_timestamp ei) + unat (cooldownSeconds (run X s (take j ts)))
        \<le> unat (block_timestamp ej)) \<and>
   (providers s (msg_sender e) \<and> \<not> paused s \<and>
    unat (block_timestamp e)
      < unat (lastSubmissionTime s (msg_sender e)) + unat (cooldownSeconds s) \<and>
    unat (lastSubmissionTime s (msg_sender e)) + unat (cooldownSeconds s) < 2 ^ 256 \<longrightarrow>
      submitPaymentRequest e b n s = (Some CooldownActive, s)) \<and>
   (\<not> paused s \<and>
    unat (block_timestamp e)
      < unat (lastDecryptionRequestTime s (msg_sender e)) + unat (cooldownSeconds s) \<and>
    unat (lastDecryptionRequestTime s (msg_sender e)) + unat (cooldownSeconds s) < 2 ^ 256 \<longrightarrow>
      requestNoteDecryption X e b p s = (Some CooldownActive, s)) \<and>
   (providers s (msg_sender e) \<and> \<not> paused s \<and>
    2 ^ 256 \<le> unat (lastSubmissionTime s (msg_sender e)) + unat (cooldownSeconds s) \<longrightarrow>
      submitPaymentRequest e b n s = (Some Panic, s)) \<and>
   (\<not> paused s \<and>
    2 ^ 256 \<le> unat (lastDecryptionRequestTime s (msg_sender e)) + unat (cooldownSeconds s) \<longrightarrow>
      requestNoteDecryption X e b p s = (Some Panic, s)) \<and>
   (\<not> providers s (msg_sender e) \<longrightarrow>
      submitPaymentRequest e b n s = (Some NotProvider, s)) \<and>
   (providers s (msg_sender e) \<and> paused s \<longrightarrow>
      submitPaymentRequest e b n s = (Some Paused, s)) \<and>
   (paused s \<longrightarrow> requestNoteDecryption X e b p s = (Some Paused, s))"
  using submit_separation [of i j ts ei bi ni ej bj nj X s]
    request_separation [of i j ts ei bi qi ej bj qj X s]
    submit_CooldownActive [of s e b n] request_CooldownActive [of s e X b p]
    submit_Panic [of s e b n] request_Panic [of s e X b p]
    submit_guards [of s e b n] request_guard [of s X e b p]
  by blast

theorem cooldown_between_accepted_actions_witness:
  "unat (block_timestamp (at 1 100)) +
     unat (cooldownSeconds (run stub_ext (constructor (at 1 0)) (take 3 trace_two_submissions)))
     \<le> unat (block_timestamp (at 1 200)) \<and>
   submitPaymentRequest (at 1 130) 0 193 scenario_submitted =
     (Some CooldownActive, scenario_submitted)"
proof -
  let ?ts = trace_two_submissions
  let ?s0 = "constructor (at 1 0)"
  have sep: "(1 :: nat) < 3 \<and> 3 < length ?ts \<and>
      ?ts ! 1 = (at 1 100, SubmitPaymentRequest 0 192) \<and>
      ?ts ! 3 = (at 1 200, SubmitPaymentRequest 1 193) \<and>
      msg_sender (at 1 100) = msg_sender (at 1 200) \<and>
      accepted stub_ext (?ts ! 1) (run stub_ext ?s0 (take 1 ?ts)) \<and>
      accepted stub_ext (?ts ! 3) (run stub_ext ?s0 (take 3 ?ts))"
    unfolding trace_two_submissions_def by (simp add: eval_defs)
  have early: "providers scenario_submitted (msg_sender (at 1 130)) \<and>
      \<not> paused scenario_submitted \<and>
      unat (block_timestamp (at 1 130))
        < unat (lastSubmissionTime scenario_submitted (msg_sender (at 1 130))) +
          unat (cooldownSeconds scenario_submitted) \<and>
      unat (lastSubmissionTime scenario_submitted (msg_sender (at 1 130))) +
        unat (cooldownSeconds scenario_submitted) < 2 ^ 256"
    unfolding scenario_submitted_def by (simp add: eval_defs)
  from cooldown_between_accepted_actions
    [where i = 1 and j = 3 and ts = ?ts and X = stub_ext and s = ?s0
       and ei = "at 1 100" and bi = 0 and ni = 192
       and ej = "at 1 200" and bj = 1 and nj = 193]
    sep
  have one: "unat (block_timestamp (at 1 100)) +
     unat (cooldownSeconds (run stub_ext ?s0 (take 3 ?ts))) \<le> unat (block_timestamp (at 1 200))"
    by blast
  from cooldown_between_accepted_actions
    [where s = scenario_submitted and e = "at 1 130" and b = 0 and n = 193]
    early
  have two: "submitPaymentRequest (at 1 130) 0 193 scenario_submitted =
     (Some CooldownActive, scenario_submitted)"
    by blast
  from one two show ?thesis by blast
qed

text \<open>
  Against C6 as stated: attempts before the cooldown has elapsed that fail with another
  error: \<open>Paused\<close> for both kinds of action on a paused system, \<open>NotProvider\<close> for a
  submission by an address that is no provider, and the arithmetic panic when the sum
  overflows.
\<close>

theorem early_attempt_other_errors_counterexample:
  "unat (block_timestamp (at 1 10))
     < unat (lastSubmissionTime scenario_paused 1) + unat (cooldownSeconds scenario_paused) \<and>
   submitPaymentRequest (at 1 10) 0 192 scenario_paused = (Some Paused, scenario_paused) \<and>
   unat (block_timestamp (at 3 10))
     < unat (lastDecryptionRequestTime scenario_paused 3) + unat (cooldownSeconds scenario_paused) \<and>
   requestNoteDecryption stub_ext (at 3 10) 0 1 scenario_paused =
     (Some Paused, scenario_paused) \<and>
   unat (block_timestamp (at 3 10))
     < unat (lastSubmissionTime (constructor (at 1 0)) 3) +
       unat (cooldownSeconds (constructor (at 1 0))) \<and>
   submitPaymentRequest (at 3 10) 0 192 (constructor (at 1 0)) =
     (Some NotProvider, constructor (at 1 0)) \<and>
   unat (block_timestamp (at 1 120))
     < unat (lastSubmissionTime scenario_long_cooldown 1) +
       unat (cooldownSeconds scenario_long_cooldown) \<and>
   submitPaymentRequest (at 1 120) 0 193 scenario_long_cooldown =
     (Some Panic, scenario_long_cooldown)"
  unfolding scenario_paused_def scenario_long_cooldown_def
  by (simp add: eval_defs unsigned_minus_1_eq_mask mask_eq_exp_minus_1)

subsection \<open>C7: issuing a decryption request\<close>

text \<open>
  C7. When the system is not paused and the sender's cooldown has elapsed,
  \<open>requestNoteDecryption\<close> fails with \<open>NotInitialized\<close>, changing nothing, if
  (batch, provider) has no submission. Otherwise it dispatches the stored handle through
  \<^verbatim>\<open>FHE.requestDecryption\<close>. When the access-control list does not allow the decryption,
  that call reverts and the request fails with \<open>SenderNotAllowed\<close>, storing nothing.
  When it allows it and the library's request counter is below \<open>2 ^ 256 - 1\<close>, the
  request succeeds: its id is the counter, the counter goes up by one, and under the id
  the storage holds the record of the batch id, the hash of the stored handle together
  with the contract's own address, and \<open>processed = false\<close>. At the last counter value the
  library's increment overflows and the request fails with the arithmetic panic, storing
  nothing.
\<close>

theorem requestNoteDecryption_binds_state:
  assumes "\<not> paused s"
    and "unat (lastDecryptionRequestTime s (msg_sender e)) + unat (cooldownSeconds s)
           \<le> unat (block_timestamp e)"
  shows "(\<not> hasSubmitted s b p \<longrightarrow>
            requestNoteDecryption X e b p s = (Some NotInitialized, s)) \<and>
         (hasSubmitted s b p \<and> \<not> allowForDecryption X [encryptedNotes s b p] \<longrightarrow>
            requestNoteDecryption X e b p s = (Some SenderNotAllowed, s)) \<and>
         (hasSubmitted s b p \<and> allowForDecryption X [encryptedNotes s b p] \<and>
          counterRequest s \<noteq> - 1 \<longrightarrow>
            fst (requestNoteDecryption X e b p s) = None \<and>
            decryptionContexts (snd (requestNoteDecryption X e b p s)) (counterRequest s) =
              \<lparr>batchId = b,
               stateHash = keccak256 X [encryptedNotes s b p] (this_address X),
               processed = False\<rparr> \<and>
            counterRequest (snd (requestNoteDecryption X e b p s)) = counterRequest s + 1) \<and>
         (hasSubmitted s b p \<and> allowForDecryption X [encryptedNotes s b p] \<and>
          counterRequest s = - 1 \<longrightarrow>
            requestNoteDecryption X e b p s = (Some Panic, s))"
proof (intro conjI impI)
  assume "\<not> hasSubmitted s b p"
  from request_NotInitialized [OF assms this]
  show "requestNoteDecryption X e b p s = (Some NotInitialized, s)" .
next
  assume h: "hasSubmitted s b p \<and> \<not> allowForDecryption X [encryptedNotes s b p]"
  then have "FHE_requestDecryption X [encryptedNotes s b p] s = Inl SenderNotAllowed"
    by (simp add: FHE_requestDecryption_result)
  with request_dispatch(1) [OF assms, of b p X SenderNotAllowed] h
  show "requestNoteDecryption X e b p s = (Some SenderNotAllowed, s)" by simp
next
  assume h: "hasSubmitted s b p \<and> allowForDecryption X [encryptedNotes s b p] \<and>
    counterRequest s = - 1"
  then have "FHE_requestDecryption X [encryptedNotes s b p] s = Inl Panic"
    by (simp add: FHE_requestDecryption_result)
  with request_dispatch(1) [OF assms, of b p X Panic] h
  show "requestNoteDecryption X e b p s = (Some Panic, s)" by simp
next
  assume h: "hasSubmitted s b p \<and> allowForDecryption X [encryptedNotes s b p] \<and>
    counterRequest s \<noteq> - 1"
  then have ret: "FHE_requestDecryption X [encryptedNotes s b p] s =
      Inr (counterRequest s, s\<lparr>counterRequest := counterRequest s + 1\<rparr>)"
    by (simp add: FHE_requestDecryption_result)
  from request_dispatch(2) [OF assms, of b p X, OF _ ret] h
  show "fst (requestNoteDecryption X e b p s) = None"
    and "decryptionContexts (snd (requestNoteDecryption X e b p s)) (counterRequest s) =
           \<lparr>batchId = b,
            stateHash = keccak256 X [encryptedNotes s b p] (this_address X),
            processed = False\<rparr>"
    by simp_all
  from h assms cooldown_elapsed [OF assms(2)] ret
  show "counterRequest (snd (requestNoteDecryption X e b p s)) = counterRequest s + 1"
    by (simp add: requestNoteDecryption_def isNoteInitialized_def emit_def Let_def)
qed

theorem requestNoteDecryption_binds_state_witness:
  "fst (requestNoteDecryption stub_ext (at 3 200) 0 1 scenario_submitted) = None \<and>
   decryptionContexts (snd (requestNoteDecryption stub_ext (at 3 200) 0 1 scenario_submitted))
     (counterRequest scenario_submitted) =
     \<lparr>batchId = 0,
      stateHash = keccak256 stub_ext [encryptedNotes scenario_submitted 0 1] (this_address stub_ext),
      processed = False\<rparr> \<and>
   requestNoteDecryption stub_ext (at 3 200) 0 2 scenario_submitted =
     (Some NotInitialized, scenario_submitted)"
proof -
  have np: "\<not> paused scenario_submitted"
    and el: "unat (lastDecryptionRequestTime scenario_submitted (msg_sender (at 3 200))) +
             unat (cooldownSeconds scenario_submitted) \<le> unat (block_timestamp (at 3 200))"
    and sub: "hasSubmitted scenario_submitted 0 1" "\<not> hasSubmitted scenario_submitted 0 2"
    and lib: "allowForDecryption stub_ext [encryptedNotes scenario_submitted 0 1]"
      "counterRequest scenario_submitted \<noteq> - 1"
    unfolding scenario_submitted_def by (simp_all add: eval_defs)
  from requestNoteDecryption_binds_state [OF np el, of 0 1 stub_ext] sub(1) lib
  have a: "fst (requestNoteDecryption stub_ext (at 3 200) 0 1 scenario_submitted) = None \<and>
   decryptionContexts (snd (requestNoteDecryption stub_ext (at 3 200) 0 1 scenario_submitted))
     (counterRequest scenario_submitted) =
     \<lparr>batchId = 0,
      stateHash = keccak256 stub_ext [encryptedNotes scenario_submitted 0 1] (this_address stub_ext),
      processed = False\<rparr>"
    by blast
  from requestNoteDecryption_binds_state [OF np el, of 0 2 stub_ext] sub(2)
  have b: "requestNoteDecryption stub_ext (at 3 200) 0 2 scenario_submitted =
     (Some NotInitialized, scenario_submitted)"
    by blast
  from a b show ?thesis by (intro conjI) simp_all
qed

text \<open>
  Against C7 as stated: the system is not paused, the sender's cooldown has elapsed and
  the submission of (batch 0, provider 1) exists, yet the request fails and stores no
  record, because the access-control list refuses the decryption of the handle.
\<close>

theorem requestNoteDecryption_refused_counterexample:
  "\<not> paused scenario_submitted \<and>
   unat (lastDecryptionRequestTime scenario_submitted 3) + unat (cooldownSeconds scenario_submitted)
     \<le> unat (block_timestamp (at 3 200)) \<and>
   hasSubmitted scenario_submitted 0 1 \<and>
   requestNoteDecryption refusing_ext (at 3 200) 0 1 scenario_submitted =
     (Some SenderNotAllowed, scenario_submitted)"
  unfolding scenario_submitted_def by (simp add: eval_defs)

subsection \<open>C8: all or nothing\<close>

text \<open>
  C8. Whatever the operation, the caller, the arguments and the storage: when the
  operation fails with an error, the storage it has reached at the revert is the storage
  it started from, events included. No statement that writes comes before a revert.
\<close>

theorem revert_leaves_state_unchanged:
  "fst (exec X e c s) = Some err \<Longrightarrow> snd (exec X e c s) = s"
  by (rule exec_revert_unchanged) simp

theorem revert_leaves_state_unchanged_witness:
  "snd (exec stub_ext (at 3 10) OpenBatch (constructor (at 1 0))) = constructor (at 1 0) \<and>
   snd (exec stub_ext (at 9 300) (MyCallback 0 (replicate 32 0) []) scenario_requested) =
     scenario_requested"
proof -
  have a: "fst (exec stub_ext (at 3 10) OpenBatch (constructor (at 1 0))) = Some NotOwner"
    by (simp add: eval_defs)
  have b: "fst (exec stub_ext (at 9 300) (MyCallback 0 (replicate 32 0) []) scenario_requested) =
      Some InvalidState"
    unfolding scenario_requested_def by (simp add: eval_defs)
  from revert_leaves_state_unchanged [OF a] revert_leaves_state_unchanged [OF b]
  show ?thesis by blast
qed

subsection \<open>C9: the initial state\<close>

text \<open>
  C9. After the constructor the deployer is the owner and a provider, the only one; the
  event log holds \<open>ProviderAdded\<close> for the deployer; the cooldown is 60, the batch id 0,
  no batch is open and the system is not paused.
\<close>

theorem constructor_initial_state:
  "owner (constructor e) = msg_sender e \<and>
   providers (constructor e) (msg_sender e) \<and>
   (\<forall>a. providers (constructor e) a = (a = msg_sender e)) \<and>
   events (constructor e) = [ProviderAdded (msg_sender e)] \<and>
   cooldownSeconds (constructor e) = 60 \<and>
   currentBatchId (constructor e) = 0 \<and>
   \<not> batchOpen (constructor e) \<and>
   \<not> paused (constructor e)"
  by (simp add: constructor_def zero_state_def emit_def Let_def)

subsection \<open>C10: the batch id never decreases\<close>

text \<open>
  C10. No operation decreases \<open>currentBatchId\<close>; an operation that changes it is
  \<open>openBatch\<close> on an open batch, and the new id is the old one plus one, without
  wrap-around. Hence the id never decreases along a run of transactions.
\<close>

theorem currentBatchId_never_decreases:
  "unat (currentBatchId s) \<le> unat (currentBatchId (snd (exec X e c s))) \<and>
   (currentBatchId (snd (exec X e c s)) \<noteq> currentBatchId s \<longrightarrow>
      c = OpenBatch \<and> batchOpen s \<and>
      unat (currentBatchId (snd (exec X e c s))) = unat (currentBatchId s) + 1) \<and>
   unat (currentBatchId s) \<le> unat (currentBatchId (run X s ts))"
  using exec_currentBatchId [of X e c s] unat_succ [of "currentBatchId s"]
    exec_currentBatchId_le [of s X e c] run_currentBatchId_le [of s X ts]
  by auto

theorem currentBatchId_never_decreases_witness:
  "currentBatchId (snd (exec stub_ext (at 1 20) OpenBatch
      (snd (openBatch (at 1 10) (constructor (at 1 0)))))) = 1 \<and>
   batchOpen (snd (openBatch (at 1 10) (constructor (at 1 0))))"
proof -
  let ?s1 = "snd (openBatch (at 1 10) (constructor (at 1 0)))"
  have id1: "currentBatchId ?s1 = 0"
    by (simp add: openBatch_def constructor_def zero_state_def emit_def at_def Let_def)
  have ne: "currentBatchId (snd (exec stub_ext (at 1 20) OpenBatch ?s1)) \<noteq> currentBatchId ?s1"
    by (simp add: eval_defs)
  from currentBatchId_never_decreases [of ?s1 stub_ext "at 1 20" OpenBatch "[]"] ne
  have "batchOpen ?s1 \<and>
        unat (currentBatchId (snd (exec stub_ext (at 1 20) OpenBatch ?s1))) = unat (currentBatchId ?s1) + 1"
    by blast
  with id1 show ?thesis by (simp add: word_unat_eq_iff)
qed

end
